theory Spec2Isabelle
  imports Main "HOL-Library.Word"
begin

section \<open>Text: JavaScript strings, byte arrays and the UTF-8 codec\<close>

text \<open>
  A JavaScript string is a sequence of 16-bit code units (UTF-16, lone surrogates
  allowed); a \<^verbatim>\<open>Uint8Array\<close> is a sequence of bytes. \<open>js\<close> and \<open>ascii\<close> write
  ASCII literals of either type.
\<close>

type_synonym byte = "8 word"
type_synonym bytes = "byte list"
type_synonym code_unit = "16 word"
type_synonym jsstring = "code_unit list"

definition js :: "string \<Rightarrow> jsstring" where
  "js s = map (\<lambda>c. of_nat (of_char c)) s"

definition ascii :: "string \<Rightarrow> bytes" where
  "ascii s = map (\<lambda>c. of_nat (of_char c)) s"

definition is_high :: "code_unit \<Rightarrow> bool" where
  "is_high u \<longleftrightarrow> 0xD800 \<le> unat u \<and> unat u \<le> 0xDBFF"

definition is_low :: "code_unit \<Rightarrow> bool" where
  "is_low u \<longleftrightarrow> 0xDC00 \<le> unat u \<and> unat u \<le> 0xDFFF"

text \<open>
  \<^verbatim>\<open>TextEncoder.encode\<close>: the string is first read as a sequence of Unicode scalar
  values (a surrogate pair is one scalar value, a lone surrogate becomes U+FFFD), and
  each scalar value is written in UTF-8.
\<close>

fun scalars :: "jsstring \<Rightarrow> nat list" where
  "scalars [] = []"
| "scalars [u] = [if is_high u \<or> is_low u then 0xFFFD else unat u]"
| "scalars (u # v # r) =
     (if is_high u \<and> is_low v
      then (0x10000 + (unat u - 0xD800) * 0x400 + (unat v - 0xDC00)) # scalars r
      else (if is_high u \<or> is_low u then 0xFFFD else unat u) # scalars (v # r))"

definition utf8_bytes :: "nat \<Rightarrow> bytes" where
  "utf8_bytes c =
     (if c < 0x80 then [of_nat c]
      else if c < 0x800 then [of_nat (0xC0 + c div 0x40), of_nat (0x80 + c mod 0x40)]
      else if c < 0x10000 then
        [of_nat (0xE0 + c div 0x1000), of_nat (0x80 + c div 0x40 mod 0x40),
         of_nat (0x80 + c mod 0x40)]
      else
        [of_nat (0xF0 + c div 0x40000), of_nat (0x80 + c div 0x1000 mod 0x40),
         of_nat (0x80 + c div 0x40 mod 0x40), of_nat (0x80 + c mod 0x40)])"

definition encode :: "jsstring \<Rightarrow> bytes" where
  "encode s = concat (map utf8_bytes (scalars s))"

text \<open>
  \<^verbatim>\<open>TextDecoder.decode(chunk)\<close> for UTF-8, called without the \<^verbatim>\<open>stream\<close> option: a fresh
  decoder runs over the chunk and is flushed at its end. The arguments of \<open>utf8_decode\<close>
  are the decoder's state: the code point collected so far, the number of continuation
  bytes still needed, and the bounds for the next byte. A malformed or truncated sequence
  yields U+FFFD; the byte that broke a sequence is read again as the start of the next
  one. A leading U+FEFF (byte order mark) is dropped, and code points are written in
  UTF-16.
\<close>

function utf8_decode :: "nat \<Rightarrow> nat \<Rightarrow> nat \<Rightarrow> nat \<Rightarrow> bytes \<Rightarrow> nat list" where
  "utf8_decode cp n lo hi [] = (if n \<noteq> 0 then [0xFFFD] else [])"
| "utf8_decode cp n lo hi (b # bs) =
     (let x = unat b in
      if n = 0 then
        if x \<le> 0x7F then x # utf8_decode 0 0 0x80 0xBF bs
        else if 0xC2 \<le> x \<and> x \<le> 0xDF then utf8_decode (x - 0xC0) 1 0x80 0xBF bs
        else if 0xE0 \<le> x \<and> x \<le> 0xEF then
          utf8_decode (x - 0xE0) 2 (if x = 0xE0 then 0xA0 else 0x80)
            (if x = 0xED then 0x9F else 0xBF) bs
        else if 0xF0 \<le> x \<and> x \<le> 0xF4 then
          utf8_decode (x - 0xF0) 3 (if x = 0xF0 then 0x90 else 0x80)
            (if x = 0xF4 then 0x8F else 0xBF) bs
        else 0xFFFD # utf8_decode 0 0 0x80 0xBF bs
      else if x < lo \<or> hi < x then 0xFFFD # utf8_decode 0 0 0x80 0xBF (b # bs)
      else if n = 1 then (cp * 0x40 + (x - 0x80)) # utf8_decode 0 0 0x80 0xBF bs
      else utf8_decode (cp * 0x40 + (x - 0x80)) (n - 1) 0x80 0xBF bs)"
  by pat_completeness auto
termination
  by (relation "measure (\<lambda>(cp, n, lo, hi, bs). 2 * length bs + (if n = 0 then 0 else 1))")
    auto

definition utf16_units :: "nat \<Rightarrow> jsstring" where
  "utf16_units c =
     (if c < 0x10000 then [of_nat c]
      else [of_nat (0xD800 + (c - 0x10000) div 0x400),
            of_nat (0xDC00 + (c - 0x10000) mod 0x400)])"

fun strip_bom :: "nat list \<Rightarrow> nat list" where
  "strip_bom [] = []"
| "strip_bom (c # cs) = (if c = 0xFEFF then cs else c # cs)"

definition decode :: "bytes \<Rightarrow> jsstring" where
  "decode bs = concat (map utf16_units (strip_bom (utf8_decode 0 0 0x80 0xBF bs)))"

section \<open>trimStartOfStreamHelper\<close>

text \<open>
  \<^verbatim>\<open>String.prototype.trimStart\<close> removes the leading code units that are white space or
  line terminators of ECMAScript.
\<close>

definition is_whitespace :: "code_unit \<Rightarrow> bool" where
  "is_whitespace u \<longleftrightarrow>
     (let x = unat u in
      x = 0x9 \<or> x = 0xA \<or> x = 0xB \<or> x = 0xC \<or> x = 0xD \<or> x = 0x20 \<or> x = 0xA0 \<or>
      x = 0x1680 \<or> (0x2000 \<le> x \<and> x \<le> 0x200A) \<or> x = 0x2028 \<or> x = 0x2029 \<or>
      x = 0x202F \<or> x = 0x205F \<or> x = 0x3000 \<or> x = 0xFEFF)"

definition trimStart :: "jsstring \<Rightarrow> jsstring" where
  "trimStart text = dropWhile is_whitespace text"

text \<open>
  The closure returned by \<^verbatim>\<open>trimStartOfStreamHelper()\<close> owns one variable,
  \<^verbatim>\<open>isStreamStart\<close>. \<open>trimStartOfStreamHelper\<close> is that variable's initial value, and
  \<open>trim_call\<close> is one call of the closure: the returned text and the variable afterwards.
  \<open>trim_calls\<close> calls the closure on each text of a list in turn.
\<close>

definition trimStartOfStreamHelper :: bool where
  "trimStartOfStreamHelper = True"

definition trim_call :: "bool \<Rightarrow> jsstring \<Rightarrow> jsstring \<times> bool" where
  "trim_call isStreamStart text =
     (if isStreamStart then
        (let text' = trimStart text in (text', if text' \<noteq> [] then False else isStreamStart))
      else (text, isStreamStart))"

fun trim_calls :: "bool \<Rightarrow> jsstring list \<Rightarrow> jsstring list" where
  "trim_calls isStreamStart [] = []"
| "trim_calls isStreamStart (text # texts) =
     (case trim_call isStreamStart text of
        (out, isStreamStart') \<Rightarrow> out # trim_calls isStreamStart' texts)"

section \<open>Streams, errors and responses\<close>

text \<open>
  A value thrown or used as a rejection reason: \<^verbatim>\<open>new Error(message)\<close>, or the
  \<^verbatim>\<open>TypeError\<close> that the streams runtime throws from \<^verbatim>\<open>controller.enqueue\<close> on a readable
  side that no longer accepts chunks.

  A \<^verbatim>\<open>ReadableStream\<close> is described by what a consumer reading it to its end observes: the
  chunks it receives, in order, and how the stream ends. \<open>Pending\<close> is a stream that neither
  closes nor errors: every read past its chunks waits for ever.
\<close>

datatype error = Error jsstring | TypeError

datatype ending = Closed | Errored error | Pending

datatype 'a readable = Readable (chunks: "'a list") (ending: ending)

text \<open>Of a \<^verbatim>\<open>Response\<close> the code reads \<^verbatim>\<open>ok\<close> and \<^verbatim>\<open>body\<close>, which may be null.\<close>

record response =
  ok :: bool
  body :: "bytes readable option"

definition createEmptyReadableStream :: "'a readable" where
  "createEmptyReadableStream = Readable [] Closed"

section \<open>The SSE parser\<close>

text \<open>
  The events that the parser of package \<^verbatim>\<open>eventsource-parser\<close> hands to its callback. The
  \<^verbatim>\<open>id\<close> field of a parsed event, which the code never reads, is left out.

  The package is not part of the sources, so the transformer takes the parser as a parameter:
  \<open>createParser\<close> is the state of a new parser, and \<open>feed\<close> returns the events that one
  call of \<^verbatim>\<open>parser.feed(text)\<close> passes to the callback, in order, and the parser's state
  afterwards. The callback returns nothing to the parser, so the events do not depend on
  what the callback does; an exception thrown by the callback leaves \<^verbatim>\<open>feed\<close> at once.

  The second thing the code's surroundings decide is the scheduling of reads. When a readable
  side is errored, the chunks still in its queue are discarded, and its consumer keeps only
  the chunks it has taken by then. \<open>tokens_taken\<close> is the number of chunks the callbacks
  transformer has taken from the event stream transformer at that moment, and
  \<open>bytes_taken\<close> the number of chunks the caller has taken from the stream \<^verbatim>\<open>AIStream\<close>
  returned. Neither is fixed by the code, so both are parameters too.
\<close>

datatype sse_event =
    ParsedEvent (event_name: "jsstring option") (event_data: jsstring)
  | ReconnectInterval (retry_value: nat)

record 'p runtime =
  createParser :: 'p
  feed :: "'p \<Rightarrow> jsstring \<Rightarrow> sse_event list \<times> 'p"
  tokens_taken :: nat
  bytes_taken :: nat

text \<open>The events framed from successive texts fed to one parser.\<close>

fun framed_events :: "'p runtime \<Rightarrow> 'p \<Rightarrow> jsstring list \<Rightarrow> sse_event list" where
  "framed_events P p [] = []"
| "framed_events P p (text # texts) =
     (case feed P p text of (evs, p') \<Rightarrow> evs @ framed_events P p' texts)"

section \<open>createEventStreamTransformer\<close>

text \<open>
  The custom parser has type \<^verbatim>\<open>(data: string) => string | void\<close>: a function from the
  data of an event to a string, or to nothing (\<open>None\<close>). It is taken to return the same
  result for the same data and not to throw.
\<close>

type_synonym AIStreamParser = "jsstring \<Rightarrow> jsstring option"

text \<open>
  The state of the transform stream: the parser, the chunks enqueued on the readable side,
  whether \<^verbatim>\<open>controller.terminate()\<close> has been called, and the exception that left
  \<^verbatim>\<open>transform\<close>, if any. Two logs record what the code did: the events the parser callback
  was called with, and the arguments \<^verbatim>\<open>customParser\<close> was called with.
\<close>

record 'p framer =
  eventSourceParser :: 'p
  enqueued :: "jsstring list"
  terminated :: bool
  thrown :: "error option"
  seen :: "sse_event list"
  hook_calls :: "jsstring list"

definition is_termination :: "sse_event \<Rightarrow> bool" where
  "is_termination ev =
     (case ev of
        ParsedEvent name d \<Rightarrow> d = js ''[DONE]'' \<or> name = Some (js ''done'')
      | ReconnectInterval _ \<Rightarrow> False)"

text \<open>
  \<^verbatim>\<open>controller.terminate()\<close> closes the readable side and errors the writable side.
  \<^verbatim>\<open>controller.enqueue(chunk)\<close> throws a \<^verbatim>\<open>TypeError\<close> once the readable side has been
  closed.
\<close>

definition terminate :: "'p framer \<Rightarrow> 'p framer" where
  "terminate st = st\<lparr>terminated := True\<rparr>"

definition enqueue :: "jsstring \<Rightarrow> 'p framer \<Rightarrow> 'p framer" where
  "enqueue chunk st =
     (if terminated st then st\<lparr>thrown := Some TypeError\<rparr>
      else st\<lparr>enqueued := enqueued st @ [chunk]\<rparr>)"

text \<open>The callback given to \<^verbatim>\<open>createParser\<close>.\<close>

definition onParse :: "AIStreamParser option \<Rightarrow> sse_event \<Rightarrow> 'p framer \<Rightarrow> 'p framer" where
  "onParse customParser ev st0 =
     (let st = st0\<lparr>seen := seen st0 @ [ev]\<rparr> in
      if is_termination ev then terminate st
      else
        (case ev of
           ReconnectInterval _ \<Rightarrow> st
         | ParsedEvent name d \<Rightarrow>
             (case customParser of
                None \<Rightarrow> if d \<noteq> [] then enqueue d st else st
              | Some f \<Rightarrow>
                  (let st' = st\<lparr>hook_calls := hook_calls st @ [d]\<rparr> in
                   case f d of
                     None \<Rightarrow> st'
                   | Some parsedMessage \<Rightarrow>
                       if parsedMessage \<noteq> [] then enqueue parsedMessage st' else st'))))"

text \<open>
  One call of \<^verbatim>\<open>feed\<close>: the callback runs on each event in turn, until it throws.
\<close>

fun feed_events :: "AIStreamParser option \<Rightarrow> sse_event list \<Rightarrow> 'p framer \<Rightarrow> 'p framer" where
  "feed_events customParser [] st = st"
| "feed_events customParser (ev # evs) st =
     (let st' = onParse customParser ev st in
      if thrown st' \<noteq> None then st' else feed_events customParser evs st')"

definition transform ::
  "'p runtime \<Rightarrow> AIStreamParser option \<Rightarrow> bytes \<Rightarrow> 'p framer \<Rightarrow> 'p framer" where
  "transform P customParser chunk st =
     (case feed P (eventSourceParser st) (decode chunk) of
        (evs, p') \<Rightarrow> feed_events customParser evs (st\<lparr>eventSourceParser := p'\<rparr>))"

text \<open>
  The writable side hands the chunks written to it to \<^verbatim>\<open>transform\<close> one at a time, and
  stops once it is errored: by \<^verbatim>\<open>terminate\<close>, or by an exception from \<^verbatim>\<open>transform\<close>.
\<close>

fun writes ::
  "'p runtime \<Rightarrow> AIStreamParser option \<Rightarrow> bytes list \<Rightarrow> 'p framer \<Rightarrow> 'p framer" where
  "writes P customParser [] st = st"
| "writes P customParser (chunk # rest) st =
     (if terminated st \<or> thrown st \<noteq> None then st
      else writes P customParser rest (transform P customParser chunk st))"

text \<open>
  \<open>createEventStreamTransformer P customParser input\<close> is the state of the transformer
  after \<open>input\<close> has been piped into it (\<^verbatim>\<open>start\<close> creates the parser).
\<close>

definition createEventStreamTransformer ::
  "'p runtime \<Rightarrow> AIStreamParser option \<Rightarrow> bytes readable \<Rightarrow> 'p framer" where
  "createEventStreamTransformer P customParser input =
     writes P customParser (chunks input)
       \<lparr>eventSourceParser = createParser P, enqueued = [], terminated = False,
        thrown = None, seen = [], hook_calls = []\<rparr>"

text \<open>
  The readable side of the transformer, as the callbacks transformer reads it.
  \<^item> An exception that leaves \<^verbatim>\<open>transform\<close> errors the readable side with that exception,
    and the chunks still queued are discarded. Here the exception comes from
    \<^verbatim>\<open>enqueue\<close> after \<^verbatim>\<open>terminate\<close>: if the consumer has by then taken every chunk, the
    stream is already closed and stays closed.
  \<^item> Otherwise \<^verbatim>\<open>terminate\<close> closes the readable side once its queue has been read.
  \<^item> Otherwise the readable side ends as the input does: it closes when the input closes,
    it stays open while the input stays open, and when the input errors it is errored with
    the same error and the chunks still queued are discarded.
\<close>

definition framer_readable ::
  "'p runtime \<Rightarrow> 'p framer \<Rightarrow> bytes readable \<Rightarrow> jsstring readable" where
  "framer_readable P st input =
     (case thrown st of
        Some e \<Rightarrow>
          if tokens_taken P < length (enqueued st)
          then Readable (take (tokens_taken P) (enqueued st)) (Errored e)
          else Readable (enqueued st) Closed
      | None \<Rightarrow>
          if terminated st then Readable (enqueued st) Closed
          else
            (case ending input of
               Closed \<Rightarrow> Readable (enqueued st) Closed
             | Errored e \<Rightarrow> Readable (take (tokens_taken P) (enqueued st)) (Errored e)
             | Pending \<Rightarrow> Readable (enqueued st) Pending))"

section \<open>createCallbacksTransformer\<close>

text \<open>
  A callback returns \<^verbatim>\<open>Promise<void> | void\<close>: what matters of a call is whether it
  completes (\<open>None\<close>) or throws or rejects (\<open>Some e\<close>).
\<close>

record AIStreamCallbacks =
  onStart :: "(unit \<Rightarrow> error option) option"
  onCompletion :: "(jsstring \<Rightarrow> error option) option"
  onToken :: "(jsstring \<Rightarrow> error option) option"

text \<open>What the transformer does, in order: calls of the callbacks, and chunks enqueued.\<close>

datatype effect =
    CallStart
  | Enqueue bytes
  | CallToken jsstring
  | CallCompletion jsstring

record lifecycle =
  aggregatedResponse :: jsstring
  trace :: "effect list"
  failure :: "error option"

definition no_callbacks :: AIStreamCallbacks where
  "no_callbacks = \<lparr>onStart = None, onCompletion = None, onToken = None\<rparr>"

definition destructure :: "AIStreamCallbacks option \<Rightarrow> AIStreamCallbacks" where
  "destructure callbacks = (case callbacks of Some c \<Rightarrow> c | None \<Rightarrow> no_callbacks)"

definition cb_start :: "AIStreamCallbacks \<Rightarrow> lifecycle \<Rightarrow> lifecycle" where
  "cb_start c st =
     (case onStart c of
        None \<Rightarrow> st
      | Some f \<Rightarrow> st\<lparr>trace := trace st @ [CallStart], failure := f ()\<rparr>)"

definition cb_transform :: "AIStreamCallbacks \<Rightarrow> jsstring \<Rightarrow> lifecycle \<Rightarrow> lifecycle" where
  "cb_transform c message st0 =
     (let st = st0\<lparr>trace := trace st0 @ [Enqueue (encode message)]\<rparr>;
          st' = (case onToken c of
                   None \<Rightarrow> st
                 | Some f \<Rightarrow> st\<lparr>trace := trace st @ [CallToken message], failure := f message\<rparr>)
      in if failure st' \<noteq> None then st'
         else if onCompletion c \<noteq> None
           then st'\<lparr>aggregatedResponse := aggregatedResponse st' @ message\<rparr>
         else st')"

definition cb_flush :: "AIStreamCallbacks \<Rightarrow> lifecycle \<Rightarrow> lifecycle" where
  "cb_flush c st =
     (case onCompletion c of
        None \<Rightarrow> st
      | Some f \<Rightarrow>
          st\<lparr>trace := trace st @ [CallCompletion (aggregatedResponse st)],
             failure := f (aggregatedResponse st)\<rparr>)"

text \<open>
  The messages written to the transformer are transformed one at a time, after \<^verbatim>\<open>start\<close>
  has completed; a callback that fails errors the stream and nothing more is run.
  \<^verbatim>\<open>flush\<close> runs when the input closes.
\<close>

fun cb_writes :: "AIStreamCallbacks \<Rightarrow> jsstring list \<Rightarrow> lifecycle \<Rightarrow> lifecycle" where
  "cb_writes c [] st = st"
| "cb_writes c (message # rest) st =
     (if failure st \<noteq> None then st else cb_writes c rest (cb_transform c message st))"

definition cb_close :: "AIStreamCallbacks \<Rightarrow> ending \<Rightarrow> lifecycle \<Rightarrow> lifecycle" where
  "cb_close c e st = (if failure st = None \<and> e = Closed then cb_flush c st else st)"

definition createCallbacksTransformer ::
  "AIStreamCallbacks option \<Rightarrow> jsstring readable \<Rightarrow> lifecycle" where
  "createCallbacksTransformer callbacks input =
     (let c = destructure callbacks in
      cb_close c (ending input)
        (cb_writes c (chunks input)
          (cb_start c \<lparr>aggregatedResponse = [], trace = [], failure = None\<rparr>)))"

fun enqueued_bytes :: "effect list \<Rightarrow> bytes list" where
  "enqueued_bytes [] = []"
| "enqueued_bytes (Enqueue b # es) = b # enqueued_bytes es"
| "enqueued_bytes (_ # es) = enqueued_bytes es"

text \<open>
  The readable side of the transformer, as the caller of \<^verbatim>\<open>AIStream\<close> reads it: when a
  callback fails or the input errors, it is errored and the chunks still queued are
  discarded; otherwise it carries every chunk enqueued and ends as the input does.
\<close>

definition lifecycle_readable ::
  "'p runtime \<Rightarrow> lifecycle \<Rightarrow> jsstring readable \<Rightarrow> bytes readable" where
  "lifecycle_readable P st input =
     (case failure st of
        Some e \<Rightarrow> Readable (take (bytes_taken P) (enqueued_bytes (trace st))) (Errored e)
      | None \<Rightarrow>
          (case ending input of
             Closed \<Rightarrow> Readable (enqueued_bytes (trace st)) Closed
           | Errored e \<Rightarrow>
               Readable (take (bytes_taken P) (enqueued_bytes (trace st))) (Errored e)
           | Pending \<Rightarrow> Readable (enqueued_bytes (trace st)) Pending))"

section \<open>AIStream\<close>

text \<open>
  The result of \<^verbatim>\<open>AIStream\<close>: the stream it returns, the number of \<^verbatim>\<open>reader.read()\<close> calls it
  makes on the body of a failed response, and, for a successful response, the state of the
  two transformers the body is piped through.
\<close>

record 'p aistream =
  stream :: "bytes readable"
  body_reads :: nat
  framed :: "'p framer option"
  lifecycled :: "lifecycle option"

definition AIStream ::
  "'p runtime \<Rightarrow> response \<Rightarrow> AIStreamParser option \<Rightarrow> AIStreamCallbacks option \<Rightarrow>
   'p aistream" where
  "AIStream P response customParser callbacks =
     (if \<not> ok response then
        (case body response of
           Some b \<Rightarrow>
             \<lparr>stream =
                (case chunks b of
                   val # _ \<Rightarrow> Readable [] (Errored (Error (js ''Response error: '' @ decode val)))
                 | [] \<Rightarrow>
                     (case ending b of
                        Closed \<Rightarrow> Readable [] Pending
                      | Errored e \<Rightarrow> Readable [] (Errored e)
                      | Pending \<Rightarrow> Readable [] Pending)),
              body_reads = 1, framed = None, lifecycled = None\<rparr>
         | None \<Rightarrow>
             \<lparr>stream = Readable [] (Errored (Error (js ''Response error: No response body''))),
              body_reads = 0, framed = None, lifecycled = None\<rparr>)
      else
        (let responseBodyStream =
               (case body response of Some b \<Rightarrow> b | None \<Rightarrow> createEmptyReadableStream);
             fr = createEventStreamTransformer P customParser responseBodyStream;
             tokens = framer_readable P fr responseBodyStream;
             lc = createCallbacksTransformer callbacks tokens
         in \<lparr>stream = lifecycle_readable P lc tokens, body_reads = 0,
             framed = Some fr, lifecycled = Some lc\<rparr>))"

section \<open>readableFromAsyncIterable\<close>

text \<open>
  An asynchronous iterator over a state of type \<open>'s\<close>: \<^verbatim>\<open>next()\<close> yields a value, reports
  completion or rejects; \<^verbatim>\<open>return\<close> is optional.
\<close>

datatype 'a iter_result = Yield 'a | Done | Throw error

record ('s, 'a, 'r) async_iterator =
  it_next :: "'s \<Rightarrow> 'a iter_result \<times> 's"
  it_return :: "('r \<Rightarrow> 's \<Rightarrow> 's) option"

text \<open>
  The stream made from an iterator: the iterator's state, the stream's own state, the values
  enqueued, and a log of the reasons \<^verbatim>\<open>return\<close> was called with. The runtime calls the
  underlying source's \<^verbatim>\<open>pull\<close> and \<^verbatim>\<open>cancel\<close> only while the stream is readable:
  cancelling a stream that is closed or errored does nothing, and cancelling a readable
  stream closes it.
\<close>

datatype stream_state = IsReadable | IsClosed | IsErrored error

record ('s, 'a, 'r) from_iterable =
  it :: 's
  state :: stream_state
  emitted :: "'a list"
  return_calls :: "'r list"

definition readableFromAsyncIterable :: "'s \<Rightarrow> ('s, 'a, 'r) from_iterable" where
  "readableFromAsyncIterable s = \<lparr>it = s, state = IsReadable, emitted = [], return_calls = []\<rparr>"

definition pull ::
  "('s, 'a, 'r) async_iterator \<Rightarrow> ('s, 'a, 'r) from_iterable \<Rightarrow> ('s, 'a, 'r) from_iterable" where
  "pull I st =
     (if state st \<noteq> IsReadable then st
      else
        (case it_next I (it st) of
           (Yield v, s') \<Rightarrow> st\<lparr>it := s', emitted := emitted st @ [v]\<rparr>
         | (Done, s') \<Rightarrow> st\<lparr>it := s', state := IsClosed\<rparr>
         | (Throw e, s') \<Rightarrow> st\<lparr>it := s', state := IsErrored e\<rparr>))"

definition cancel ::
  "('s, 'a, 'r) async_iterator \<Rightarrow> 'r \<Rightarrow> ('s, 'a, 'r) from_iterable \<Rightarrow>
   ('s, 'a, 'r) from_iterable" where
  "cancel I reason st =
     (if state st \<noteq> IsReadable then st
      else
        (case it_return I of
           None \<Rightarrow> st\<lparr>state := IsClosed\<rparr>
         | Some f \<Rightarrow>
             st\<lparr>it := f reason (it st), state := IsClosed,
                return_calls := return_calls st @ [reason]\<rparr>))"

text \<open>What a consumer does with the stream, one request after the other.\<close>

datatype 'r request = Pull | Cancel 'r

fun requests ::
  "('s, 'a, 'r) async_iterator \<Rightarrow> 'r request list \<Rightarrow> ('s, 'a, 'r) from_iterable \<Rightarrow>
   ('s, 'a, 'r) from_iterable" where
  "requests I [] st = st"
| "requests I (Pull # rs) st = requests I rs (pull I st)"
| "requests I (Cancel reason # rs) st = requests I rs (cancel I reason st)"

section \<open>A parser for the SSE wire format\<close>

text \<open>
  Modelled from the spec: package \<^verbatim>\<open>eventsource-parser\<close> is not among the sources. The spec
  describes it as a line-framing parser that recognises \<^verbatim>\<open>event:\<close>, \<^verbatim>\<open>data:\<close>, blank-line
  event boundaries and retry intervals per the SSE wire format. Lines end with LF, CR or
  CRLF; a line is a field name, a colon and a value (one leading space of the value is
  dropped); a blank line dispatches the event collected so far, unless its data is empty.
  This parser is used where a theorem is evaluated on concrete bytes; the general theorems
  hold for every parser and every scheduling of reads. In \<open>sse\<close> the consumers have taken no
  chunk when an error arrives; an evaluation that needs another scheduling sets it.
\<close>

record sse_parser =
  line :: jsstring
  after_cr :: bool
  data_buf :: jsstring
  event_type :: jsstring

definition dispatch :: "sse_parser \<Rightarrow> sse_event list \<times> sse_parser" where
  "dispatch p =
     (if data_buf p = [] then ([], p\<lparr>event_type := []\<rparr>)
      else
        ([ParsedEvent (if event_type p = [] then None else Some (event_type p))
            (butlast (data_buf p))],
         p\<lparr>data_buf := [], event_type := []\<rparr>))"

definition is_digit :: "code_unit \<Rightarrow> bool" where
  "is_digit u \<longleftrightarrow> 0x30 \<le> unat u \<and> unat u \<le> 0x39"

definition digits_value :: "jsstring \<Rightarrow> nat" where
  "digits_value ds = foldl (\<lambda>n u. 10 * n + (unat u - 0x30)) 0 ds"

definition process_field ::
  "jsstring \<Rightarrow> jsstring \<Rightarrow> sse_parser \<Rightarrow> sse_event list \<times> sse_parser" where
  "process_field name val p =
     (if name = js ''event'' then ([], p\<lparr>event_type := val\<rparr>)
      else if name = js ''data'' then ([], p\<lparr>data_buf := data_buf p @ val @ [0xA]\<rparr>)
      else if name = js ''retry'' \<and> val \<noteq> [] \<and> list_all is_digit val
        then ([ReconnectInterval (digits_value val)], p)
      else ([], p))"

definition process_line :: "jsstring \<Rightarrow> sse_parser \<Rightarrow> sse_event list \<times> sse_parser" where
  "process_line l p =
     (if l = [] then dispatch p
      else
        (let name = takeWhile (\<lambda>u. u \<noteq> 0x3A) l;
             val = (case dropWhile (\<lambda>u. u \<noteq> 0x3A) l of
                      [] \<Rightarrow> []
                    | _ # v \<Rightarrow> (case v of [] \<Rightarrow> [] | u # v' \<Rightarrow> if u = 0x20 then v' else v))
         in process_field name val p))"

fun sse_feed :: "sse_parser \<Rightarrow> jsstring \<Rightarrow> sse_event list \<times> sse_parser" where
  "sse_feed p [] = ([], p)"
| "sse_feed p (u # us) =
     (if u = 0xA \<and> after_cr p then sse_feed (p\<lparr>after_cr := False\<rparr>) us
      else if u = 0xA \<or> u = 0xD then
        (case process_line (line p) (p\<lparr>line := [], after_cr := (u = 0xD)\<rparr>) of
           (evs, p') \<Rightarrow> (case sse_feed p' us of (evs', p'') \<Rightarrow> (evs @ evs', p'')))
      else sse_feed (p\<lparr>line := line p @ [u], after_cr := False\<rparr>) us)"

definition sse :: "sse_parser runtime" where
  "sse = \<lparr>createParser = \<lparr>line = [], after_cr = False, data_buf = [], event_type = []\<rparr>,
          feed = sse_feed, tokens_taken = 0, bytes_taken = 0\<rparr>"

text \<open>
  The events of a byte stream as a whole: the text is decoded across chunk boundaries, which
  for UTF-8 is the decoding of the chunks joined together.
\<close>

definition stream_events :: "'p runtime \<Rightarrow> bytes list \<Rightarrow> sse_event list" where
  "stream_events P cs = framed_events P (createParser P) [decode (concat cs)]"

text \<open>
  The tokens of a list of events: the hook's non-empty results on the data of the events
  that carry data, or the non-empty data itself when there is no hook.
\<close>

fun extract_token :: "AIStreamParser option \<Rightarrow> sse_event \<Rightarrow> jsstring list" where
  "extract_token customParser (ReconnectInterval _) = []"
| "extract_token None (ParsedEvent name d) = (if d \<noteq> [] then [d] else [])"
| "extract_token (Some f) (ParsedEvent name d) =
     (case f d of None \<Rightarrow> [] | Some m \<Rightarrow> if m \<noteq> [] then [m] else [])"

definition tokens_of :: "AIStreamParser option \<Rightarrow> sse_event list \<Rightarrow> jsstring list" where
  "tokens_of customParser evs = concat (map (extract_token customParser) evs)"

text \<open>
  A string is well formed when it has no lone surrogate: every high surrogate is followed by
  a low one, and every low surrogate follows a high one.
\<close>

fun well_formed :: "jsstring \<Rightarrow> bool" where
  "well_formed [] = True"
| "well_formed [u] = (\<not> is_high u \<and> \<not> is_low u)"
| "well_formed (u # v # r) =
     (if is_high u then is_low v \<and> well_formed r
      else \<not> is_low u \<and> well_formed (v # r))"

text \<open>No callback that is supplied fails on the tokens it is called with.\<close>

definition callbacks_succeed :: "AIStreamCallbacks option \<Rightarrow> jsstring list \<Rightarrow> bool" where
  "callbacks_succeed callbacks tokens =
     (let c = destructure callbacks in
      (case onStart c of None \<Rightarrow> True | Some f \<Rightarrow> f () = None) \<and>
      (case onToken c of None \<Rightarrow> True | Some f \<Rightarrow> list_all (\<lambda>t. f t = None) tokens) \<and>
      (case onCompletion c of None \<Rightarrow> True | Some f \<Rightarrow> f (concat tokens) = None))"

text \<open>What the transformer does for one token when no callback fails.\<close>

definition token_effects :: "AIStreamCallbacks \<Rightarrow> jsstring \<Rightarrow> effect list" where
  "token_effects c t =
     Enqueue (encode t) # (case onToken c of None \<Rightarrow> [] | Some f \<Rightarrow> [CallToken t])"

text \<open>
  The data the hook is given for an event: that of a parsed event that is not a termination
  event.
\<close>

fun hook_arg :: "sse_event \<Rightarrow> jsstring list" where
  "hook_arg (ParsedEvent name d) = (if is_termination (ParsedEvent name d) then [] else [d])"
| "hook_arg (ReconnectInterval n) = []"

section \<open>Properties of trimStartOfStreamHelper\<close>

lemma trim_calls_passthrough: "trim_calls False texts = texts"
  by (induction texts) (simp_all add: trim_call_def)

lemma trim_calls_start:
  "trim_calls True texts =
     map trimStart (takeWhile (\<lambda>t. trimStart t = []) texts) @
     (case dropWhile (\<lambda>t. trimStart t = []) texts of
        [] \<Rightarrow> []
      | t # rest \<Rightarrow> trimStart t # rest)"
  by (induction texts) (simp_all add: trim_call_def Let_def trim_calls_passthrough)

section \<open>Properties of the UTF-8 encoder\<close>

lemma scalars_append:
  "well_formed a \<Longrightarrow> scalars (a @ b) = scalars a @ scalars b"
proof (induction a rule: scalars.induct)
  case 1
  then show ?case by simp
next
  case (2 u)
  then show ?case by (cases b) simp_all
next
  case (3 u v r)
  then show ?case by (simp split: if_splits)
qed

lemma encode_append: "well_formed a \<Longrightarrow> encode (a @ b) = encode a @ encode b"
  by (simp add: encode_def scalars_append)

lemma encode_concat:
  "list_all well_formed ts \<Longrightarrow> encode (concat ts) = concat (map encode ts)"
proof (induction ts)
  case Nil
  then show ?case by (simp add: encode_def)
next
  case (Cons t ts)
  then show ?case by (simp add: encode_append)
qed

text \<open>The definitions unfolded to run the model on concrete input.\<close>

lemmas text_defs = js_def ascii_def decode_def encode_def utf16_units_def utf8_bytes_def
  is_high_def is_low_def

lemmas sse_defs = sse_def process_line_def process_field_def dispatch_def is_digit_def
  digits_value_def

lemmas framer_defs = createEventStreamTransformer_def transform_def onParse_def
  is_termination_def terminate_def enqueue_def framer_readable_def

lemmas lifecycle_defs = createCallbacksTransformer_def destructure_def no_callbacks_def
  cb_start_def cb_transform_def cb_close_def cb_flush_def lifecycle_readable_def


section \<open>Properties of the event stream transformer\<close>

lemma onParse_fields:
  "eventSourceParser (onParse h ev st) = eventSourceParser st"
  "seen (onParse h ev st) = seen st @ [ev]"
  by (simp_all add: onParse_def terminate_def enqueue_def Let_def
      split: sse_event.split option.split)

lemma onParse_termination:
  "is_termination ev \<Longrightarrow>
     onParse h ev st = st\<lparr>seen := seen st @ [ev], terminated := True\<rparr>"
  by (simp add: onParse_def terminate_def)

lemma onParse_terminated:
  "terminated st \<Longrightarrow>
     terminated (onParse h ev st) \<and> enqueued (onParse h ev st) = enqueued st"
  by (simp add: onParse_def terminate_def enqueue_def Let_def
      split: sse_event.split option.split)

lemma onParse_token:
  "\<not> is_termination ev \<Longrightarrow> \<not> terminated st \<Longrightarrow> thrown st = None \<Longrightarrow>
     enqueued (onParse h ev st) = enqueued st @ extract_token h ev \<and>
     \<not> terminated (onParse h ev st) \<and> thrown (onParse h ev st) = None"
  by (cases ev; cases h)
    (simp_all add: onParse_def enqueue_def Let_def split: option.split)

lemma feed_events_parser:
  "eventSourceParser (feed_events h evs st) = eventSourceParser st"
  by (induction evs arbitrary: st) (simp_all add: Let_def onParse_fields)

lemma feed_events_terminated:
  "terminated st \<Longrightarrow>
     terminated (feed_events h evs st) \<and> enqueued (feed_events h evs st) = enqueued st"
proof (induction evs arbitrary: st)
  case Nil
  then show ?case by simp
next
  case (Cons ev evs)
  from Cons.prems have t: "terminated (onParse h ev st)"
    and e: "enqueued (onParse h ev st) = enqueued st"
    using onParse_terminated by blast+
  show ?case
  proof (cases "thrown (onParse h ev st) = None")
    case True
    with Cons.IH [OF t] e show ?thesis by (simp add: Let_def)
  next
    case False
    with t e show ?thesis by (simp add: Let_def)
  qed
qed

lemma feed_events_tokens:
  "\<not> terminated st \<Longrightarrow> thrown st = None \<Longrightarrow>
     enqueued (feed_events h evs st) =
       enqueued st @ tokens_of h (takeWhile (\<lambda>e. \<not> is_termination e) evs) \<and>
     terminated (feed_events h evs st) = list_ex is_termination evs \<and>
     (\<not> list_ex is_termination evs \<longrightarrow> thrown (feed_events h evs st) = None)"
proof (induction evs arbitrary: st)
  case Nil
  then show ?case by (simp add: tokens_of_def)
next
  case (Cons ev evs)
  show ?case
  proof (cases "is_termination ev")
    case True
    let ?st = "st\<lparr>seen := seen st @ [ev], terminated := True\<rparr>"
    have o: "onParse h ev st = ?st" using True by (rule onParse_termination)
    have "terminated ?st" by simp
    from feed_events_terminated [OF this, of h evs] Cons.prems True o
    show ?thesis by (simp add: Let_def tokens_of_def)
  next
    case False
    from onParse_token [OF False Cons.prems, of h]
    have e: "enqueued (onParse h ev st) = enqueued st @ extract_token h ev"
      and t: "\<not> terminated (onParse h ev st)" and x: "thrown (onParse h ev st) = None"
      by simp_all
    from Cons.IH [OF t x] e x False show ?thesis
      by (simp add: Let_def tokens_of_def)
  qed
qed

lemma writes_stopped:
  "terminated st \<or> thrown st \<noteq> None \<Longrightarrow> writes P h cs st = st"
  by (cases cs) auto

lemma writes_tokens:
  "\<not> terminated st \<Longrightarrow> thrown st = None \<Longrightarrow>
     enqueued (writes P h cs st) =
       enqueued st @
       tokens_of h (takeWhile (\<lambda>e. \<not> is_termination e)
         (framed_events P (eventSourceParser st) (map decode cs))) \<and>
     terminated (writes P h cs st) =
       list_ex is_termination (framed_events P (eventSourceParser st) (map decode cs))"
proof (induction cs arbitrary: st)
  case Nil
  then show ?case by (simp add: tokens_of_def)
next
  case (Cons c cs)
  obtain evs p' where f: "feed P (eventSourceParser st) (decode c) = (evs, p')"
    by (cases "feed P (eventSourceParser st) (decode c)")
  let ?st0 = "st\<lparr>eventSourceParser := p'\<rparr>"
  let ?st1 = "feed_events h evs ?st0"
  have tr: "transform P h c st = ?st1" by (simp add: transform_def f)
  have p1: "eventSourceParser ?st1 = p'" by (simp add: feed_events_parser)
  from Cons.prems have "\<not> terminated ?st0" "thrown ?st0 = None" by simp_all
  from feed_events_tokens [OF this, of h evs]
  have e1: "enqueued ?st1 =
      enqueued st @ tokens_of h (takeWhile (\<lambda>e. \<not> is_termination e) evs)"
    and t1: "terminated ?st1 = list_ex is_termination evs"
    and x1: "\<not> list_ex is_termination evs \<Longrightarrow> thrown ?st1 = None"
    by simp_all
  show ?case
  proof (cases "list_ex is_termination evs")
    case True
    then have "writes P h cs ?st1 = ?st1" using t1 by (simp add: writes_stopped)
    moreover from True
    have "takeWhile (\<lambda>e. \<not> is_termination e) (evs @ framed_events P p' (map decode cs)) =
        takeWhile (\<lambda>e. \<not> is_termination e) evs"
      by (auto simp: list_ex_iff intro: takeWhile_append1)
    ultimately show ?thesis using Cons.prems True e1 t1 by (simp add: tr f)
  next
    case False
    then have nt: "\<not> terminated ?st1" using t1 by simp
    have th: "thrown ?st1 = None" using False by (rule x1)
    from False
    have tw: "takeWhile (\<lambda>e. \<not> is_termination e) (evs @ framed_events P p' (map decode cs)) =
        evs @ takeWhile (\<lambda>e. \<not> is_termination e) (framed_events P p' (map decode cs))"
      by (auto simp: list_ex_iff intro: takeWhile_append2)
    from False have tw0: "takeWhile (\<lambda>e. \<not> is_termination e) evs = evs"
      by (auto simp: list_ex_iff)
    from Cons.IH [OF nt th] p1 Cons.prems False e1 tw tw0 show ?thesis
      by (simp add: tr f tokens_of_def)
  qed
qed

lemma framer_tokens:
  "enqueued (createEventStreamTransformer P h input) =
     tokens_of h (takeWhile (\<lambda>e. \<not> is_termination e)
       (framed_events P (createParser P) (map decode (chunks input))))"
  "terminated (createEventStreamTransformer P h input) =
     list_ex is_termination (framed_events P (createParser P) (map decode (chunks input)))"
  using writes_tokens [of "\<lparr>eventSourceParser = createParser P, enqueued = [],
      terminated = False, thrown = None, seen = [], hook_calls = []\<rparr>" P h "chunks input"]
  by (simp_all add: createEventStreamTransformer_def)

text \<open>\<^verbatim>\<open>enqueue\<close> throws only after \<^verbatim>\<open>terminate\<close>.\<close>

lemma onParse_thrown:
  assumes "thrown st \<noteq> None \<longrightarrow> terminated st"
  shows "thrown (onParse h ev st) \<noteq> None \<longrightarrow> terminated (onParse h ev st)"
proof (cases "terminated st")
  case True
  then show ?thesis using onParse_terminated by blast
next
  case False
  with assms have x: "thrown st = None" by blast
  show ?thesis
  proof (cases "is_termination ev")
    case True
    then show ?thesis by (simp add: onParse_termination)
  next
    case nt: False
    from onParse_token [OF nt False x, of h] show ?thesis by simp
  qed
qed

lemma feed_events_thrown:
  "thrown st \<noteq> None \<longrightarrow> terminated st \<Longrightarrow>
     thrown (feed_events h evs st) \<noteq> None \<longrightarrow> terminated (feed_events h evs st)"
proof (induction evs arbitrary: st)
  case Nil
  then show ?case by simp
next
  case (Cons ev evs)
  from onParse_thrown [OF Cons.prems, of h ev] Cons.IH [of "onParse h ev st"]
  show ?case by (simp add: Let_def)
qed

lemma writes_thrown:
  "thrown st \<noteq> None \<longrightarrow> terminated st \<Longrightarrow>
     thrown (writes P h cs st) \<noteq> None \<longrightarrow> terminated (writes P h cs st)"
proof (induction cs arbitrary: st)
  case Nil
  then show ?case by simp
next
  case (Cons c cs)
  obtain evs p' where f: "feed P (eventSourceParser st) (decode c) = (evs, p')"
    by (cases "feed P (eventSourceParser st) (decode c)")
  from Cons.prems
  have "thrown (st\<lparr>eventSourceParser := p'\<rparr>) \<noteq> None \<longrightarrow>
      terminated (st\<lparr>eventSourceParser := p'\<rparr>)"
    by simp
  then have "thrown (transform P h c st) \<noteq> None \<longrightarrow> terminated (transform P h c st)"
    unfolding transform_def f by (simp add: feed_events_thrown)
  from Cons.IH [OF this] Cons.prems show ?case by simp
qed

lemma framer_thrown:
  "\<not> terminated (createEventStreamTransformer P h input) \<Longrightarrow>
     thrown (createEventStreamTransformer P h input) = None"
  using writes_thrown [of "\<lparr>eventSourceParser = createParser P, enqueued = [],
      terminated = False, thrown = None, seen = [], hook_calls = []\<rparr>" P h "chunks input"]
  by (auto simp: createEventStreamTransformer_def)

text \<open>The calls of the hook follow the events the callback has seen.\<close>

lemma onParse_hook:
  "hook_calls (onParse (Some g) e s) = hook_calls s @ hook_arg e"
  by (cases e)
    (simp_all add: onParse_def terminate_def enqueue_def Let_def split: option.split)

lemma feed_events_hook:
  "hook_calls s = concat (map hook_arg (seen s)) \<Longrightarrow>
     hook_calls (feed_events (Some g) es s) =
       concat (map hook_arg (seen (feed_events (Some g) es s)))"
  by (induction es arbitrary: s) (simp_all add: Let_def onParse_hook onParse_fields)

lemma writes_hook:
  "hook_calls s = concat (map hook_arg (seen s)) \<Longrightarrow>
     hook_calls (writes P (Some g) cs s) =
       concat (map hook_arg (seen (writes P (Some g) cs s)))"
proof (induction cs arbitrary: s)
  case Nil
  then show ?case by simp
next
  case (Cons c cs)
  have "hook_calls (transform P (Some g) c s) =
      concat (map hook_arg (seen (transform P (Some g) c s)))"
    using Cons.prems by (simp add: transform_def feed_events_hook split: prod.split)
  from Cons.IH [OF this] Cons.prems show ?case by simp
qed

lemma framer_hook:
  "hook_calls (createEventStreamTransformer P (Some g) input) =
     concat (map hook_arg (seen (createEventStreamTransformer P (Some g) input)))"
  unfolding createEventStreamTransformer_def by (rule writes_hook) simp

lemma onParse_no_hook: "hook_calls (onParse None e s) = hook_calls s"
  by (simp add: onParse_def terminate_def enqueue_def Let_def split: sse_event.split)

lemma feed_events_no_hook: "hook_calls (feed_events None es s) = hook_calls s"
  by (induction es arbitrary: s) (simp_all add: Let_def onParse_no_hook)

lemma writes_no_hook: "hook_calls (writes P None cs s) = hook_calls s"
  by (induction cs arbitrary: s)
    (simp_all add: transform_def feed_events_no_hook split: prod.split)

lemma hook_arg_not_done: "js ''[DONE]'' \<notin> set (hook_arg e)"
  by (cases e) (auto simp: is_termination_def)


section \<open>Properties of the callbacks transformer\<close>

lemma cb_transform_ok:
  assumes "failure st = None"
    and "case onToken c of None \<Rightarrow> True | Some f \<Rightarrow> f t = None"
  shows "trace (cb_transform c t st) = trace st @ token_effects c t"
    and "failure (cb_transform c t st) = None"
    and "aggregatedResponse (cb_transform c t st) =
      aggregatedResponse st @ (if onCompletion c \<noteq> None then t else [])"
  using assms by (auto simp: cb_transform_def token_effects_def Let_def split: option.splits)

lemma cb_writes_ok:
  assumes "failure st = None"
    and "case onToken c of None \<Rightarrow> True | Some f \<Rightarrow> list_all (\<lambda>t. f t = None) ts"
  shows "trace (cb_writes c ts st) = trace st @ concat (map (token_effects c) ts) \<and>
    failure (cb_writes c ts st) = None \<and>
    aggregatedResponse (cb_writes c ts st) =
      aggregatedResponse st @ (if onCompletion c \<noteq> None then concat ts else [])"
  using assms
proof (induction ts arbitrary: st)
  case Nil
  then show ?case by simp
next
  case (Cons t ts)
  from Cons.prems(2) have h: "case onToken c of None \<Rightarrow> True | Some f \<Rightarrow> f t = None"
    and r: "case onToken c of None \<Rightarrow> True | Some f \<Rightarrow> list_all (\<lambda>t. f t = None) ts"
    by (auto split: option.splits)
  note step = cb_transform_ok [OF Cons.prems(1) h]
  from Cons.IH [OF step(2) r] step(1,3) Cons.prems(1) show ?case by simp
qed

lemma enqueued_bytes_append:
  "enqueued_bytes (xs @ ys) = enqueued_bytes xs @ enqueued_bytes ys"
  by (induction xs rule: enqueued_bytes.induct) simp_all

lemma enqueued_bytes_tokens:
  "enqueued_bytes (concat (map (token_effects c) ts)) = map encode ts"
  by (induction ts)
    (simp_all add: enqueued_bytes_append token_effects_def split: option.split)

lemma lifecycle_trace:
  assumes "callbacks_succeed callbacks ts"
  shows "trace (createCallbacksTransformer callbacks (Readable ts e)) =
      (case onStart (destructure callbacks) of None \<Rightarrow> [] | Some f \<Rightarrow> [CallStart]) @
      concat (map (token_effects (destructure callbacks)) ts) @
      (if e = Closed then
         (case onCompletion (destructure callbacks) of
            None \<Rightarrow> []
          | Some f \<Rightarrow> [CallCompletion (concat ts)])
       else [])"
    and "failure (createCallbacksTransformer callbacks (Readable ts e)) = None"
proof -
  let ?c = "destructure callbacks"
  let ?s0 = "cb_start ?c \<lparr>aggregatedResponse = [], trace = [], failure = None\<rparr>"
  let ?s1 = "cb_writes ?c ts ?s0"
  from assms have a: "case onStart ?c of None \<Rightarrow> True | Some f \<Rightarrow> f () = None"
    and b: "case onToken ?c of None \<Rightarrow> True | Some f \<Rightarrow> list_all (\<lambda>t. f t = None) ts"
    and c: "case onCompletion ?c of None \<Rightarrow> True | Some f \<Rightarrow> f (concat ts) = None"
    by (simp_all add: callbacks_succeed_def Let_def)
  from a have s0: "failure ?s0 = None"
    "trace ?s0 = (case onStart ?c of None \<Rightarrow> [] | Some f \<Rightarrow> [CallStart])"
    "aggregatedResponse ?s0 = []"
    by (simp_all add: cb_start_def split: option.splits)
  from cb_writes_ok [OF s0(1) b] s0
  have s1: "trace ?s1 = (case onStart ?c of None \<Rightarrow> [] | Some f \<Rightarrow> [CallStart]) @
      concat (map (token_effects ?c) ts)"
    "failure ?s1 = None"
    "aggregatedResponse ?s1 = (if onCompletion ?c \<noteq> None then concat ts else [])"
    by simp_all
  have eq: "createCallbacksTransformer callbacks (Readable ts e) = cb_close ?c e ?s1"
    by (simp add: createCallbacksTransformer_def Let_def)
  show "trace (createCallbacksTransformer callbacks (Readable ts e)) =
      (case onStart ?c of None \<Rightarrow> [] | Some f \<Rightarrow> [CallStart]) @
      concat (map (token_effects ?c) ts) @
      (if e = Closed then
         (case onCompletion ?c of None \<Rightarrow> [] | Some f \<Rightarrow> [CallCompletion (concat ts)])
       else [])"
    unfolding eq using s1 by (simp add: cb_close_def cb_flush_def split: option.splits)
  show "failure (createCallbacksTransformer callbacks (Readable ts e)) = None"
    unfolding eq using s1 c by (simp add: cb_close_def cb_flush_def split: option.splits)
qed

lemma lifecycle_bytes:
  assumes "callbacks_succeed callbacks ts" and "e = Closed \<or> e = Pending"
  shows "lifecycle_readable P (createCallbacksTransformer callbacks (Readable ts e))
      (Readable ts e) = Readable (map encode ts) e"
  using lifecycle_trace [OF assms(1), of e] assms(2)
  by (auto simp: lifecycle_readable_def enqueued_bytes_append enqueued_bytes_tokens
      split: option.split)

text \<open>Only \<^verbatim>\<open>start\<close> calls \<^verbatim>\<open>onStart\<close>.\<close>

lemma cb_transform_starts:
  "filter (\<lambda>e. e = CallStart) (trace (cb_transform c t st)) =
     filter (\<lambda>e. e = CallStart) (trace st)"
  by (simp add: cb_transform_def Let_def split: option.split)

lemma cb_writes_starts:
  "filter (\<lambda>e. e = CallStart) (trace (cb_writes c ts st)) =
     filter (\<lambda>e. e = CallStart) (trace st)"
  by (induction ts arbitrary: st) (simp_all add: cb_transform_starts)

lemma cb_close_starts:
  "filter (\<lambda>e. e = CallStart) (trace (cb_close c e st)) =
     filter (\<lambda>e. e = CallStart) (trace st)"
  by (simp add: cb_close_def cb_flush_def split: option.split)

lemma cb_transform_prefix: "\<exists>es. trace (cb_transform c t st) = trace st @ es"
  by (simp add: cb_transform_def Let_def split: option.split)

lemma cb_writes_prefix: "\<exists>es. trace (cb_writes c ts st) = trace st @ es"
proof (induction ts arbitrary: st)
  case Nil
  then show ?case by simp
next
  case (Cons t ts)
  obtain es where "trace (cb_transform c t st) = trace st @ es"
    using cb_transform_prefix by blast
  moreover obtain es' where
    "trace (cb_writes c ts (cb_transform c t st)) = trace (cb_transform c t st) @ es'"
    using Cons.IH by blast
  ultimately show ?case by simp
qed

lemma cb_close_prefix: "\<exists>es. trace (cb_close c e st) = trace st @ es"
  by (simp add: cb_close_def cb_flush_def split: option.split)

lemma lifecycle_starts:
  assumes "onStart (destructure callbacks) = Some f"
  shows "filter (\<lambda>e. e = CallStart) (trace (createCallbacksTransformer callbacks input)) =
      [CallStart]"
    and "take 1 (trace (createCallbacksTransformer callbacks input)) = [CallStart]"
proof -
  let ?c = "destructure callbacks"
  let ?s0 = "cb_start ?c \<lparr>aggregatedResponse = [], trace = [], failure = None\<rparr>"
  have s0: "trace ?s0 = [CallStart]" using assms by (simp add: cb_start_def)
  have eq: "createCallbacksTransformer callbacks input =
      cb_close ?c (ending input) (cb_writes ?c (chunks input) ?s0)"
    by (simp add: createCallbacksTransformer_def Let_def)
  show "filter (\<lambda>e. e = CallStart) (trace (createCallbacksTransformer callbacks input)) =
      [CallStart]"
    unfolding eq by (simp add: cb_close_starts cb_writes_starts s0)
  obtain es where "trace (cb_writes ?c (chunks input) ?s0) = trace ?s0 @ es"
    using cb_writes_prefix by blast
  moreover obtain es' where "trace (cb_close ?c (ending input) (cb_writes ?c (chunks input) ?s0)) =
      trace (cb_writes ?c (chunks input) ?s0) @ es'"
    using cb_close_prefix by blast
  ultimately show "take 1 (trace (createCallbacksTransformer callbacks input)) = [CallStart]"
    unfolding eq by (simp add: s0)
qed


section \<open>Properties of readableFromAsyncIterable\<close>

lemma requests_append: "requests I (rs @ rs') st = requests I rs' (requests I rs st)"
  by (induction I rs st rule: requests.induct) simp_all

lemma requests_not_readable: "state st \<noteq> IsReadable \<Longrightarrow> requests I rs st = st"
  by (induction I rs st rule: requests.induct) (simp_all add: pull_def cancel_def)

lemma pull_return_calls: "return_calls (pull I st) = return_calls st"
  by (simp add: pull_def split: prod.split iter_result.split)

lemma cancel_readable:
  "state (cancel I reason st) = IsReadable \<Longrightarrow> return_calls (cancel I reason st) = return_calls st"
  by (simp add: cancel_def split: if_splits option.splits)

lemma requests_readable:
  "state (requests I rs st) = IsReadable \<Longrightarrow>
     return_calls (requests I rs st) = return_calls st \<and> state st = IsReadable"
proof (induction I rs st rule: requests.induct)
  case (1 I st)
  then show ?case by simp
next
  case (2 I rs st)
  then have "state (pull I st) = IsReadable" by simp
  then have "state st = IsReadable" by (auto simp: pull_def split: if_splits)
  with 2 show ?case by (simp add: pull_return_calls)
next
  case (3 I reason rs st)
  then have r: "state (cancel I reason st) = IsReadable" by simp
  then have "state st = IsReadable" by (auto simp: cancel_def split: if_splits)
  with 3 cancel_readable [OF r] show ?case by simp
qed

lemma requests_no_return:
  "it_return I = None \<Longrightarrow> return_calls (requests I rs st) = return_calls st"
  by (induction I rs st rule: requests.induct)
    (simp_all add: pull_return_calls, simp add: cancel_def)


section \<open>The claims\<close>

text \<open>
  C1, as stated, fails on the code in four ways.
  \<^item> \<^verbatim>\<open>transform\<close> decodes every chunk on its own: the stream \<^verbatim>\<open>data: \<close> followed by U+00E9
    (bytes C3 A9) and a blank line, cut between the two bytes of that character, has the one
    event whose data is U+00E9, but the token produced is two replacement characters
    (U+FFFD), and the bytes produced are their encoding.
  \<^item> Each token is encoded on its own: when a hook returns the two halves of a surrogate
    pair as two tokens, each half is encoded as U+FFFD, while the encoding of the
    concatenation is the four bytes of the character.
  \<^item> A callback that fails errors the stream: with an \<^verbatim>\<open>onStart\<close> that throws, the stream
    has no chunk although the event yields a token.
  \<^item> A body that errors errors the stream, and the chunks still queued are lost: for one
    chunk with the events \<^verbatim>\<open>a\<close>, \<^verbatim>\<open>b\<close> and \<^verbatim>\<open>c\<close> followed by an error of the body, a
    consumer that has taken two chunks by then receives \<^verbatim>\<open>a\<close>, \<^verbatim>\<open>b\<close> and the error.
\<close>

theorem AIStream_split_character:
  "map decode [ascii ''data: '' @ [0xC3], [0xA9, 0xA, 0xA]] =
       [js ''data: '' @ [0xFFFD], [0xFFFD, 0xA, 0xA]]
   \<and> decode (concat [ascii ''data: '' @ [0xC3], [0xA9, 0xA, 0xA]]) =
       js ''data: '' @ [0xE9, 0xA, 0xA]
   \<and> \<not> list_ex is_termination
       (stream_events sse [ascii ''data: '' @ [0xC3], [0xA9, 0xA, 0xA]])
   \<and> tokens_of None (stream_events sse [ascii ''data: '' @ [0xC3], [0xA9, 0xA, 0xA]]) =
       [[0xE9]]
   \<and> map_option enqueued
       (framed (AIStream sse
         \<lparr>ok = True, body = Some (Readable [ascii ''data: '' @ [0xC3], [0xA9, 0xA, 0xA]] Closed)\<rparr>
         None None)) = Some [[0xFFFD, 0xFFFD]]
   \<and> stream (AIStream sse
         \<lparr>ok = True, body = Some (Readable [ascii ''data: '' @ [0xC3], [0xA9, 0xA, 0xA]] Closed)\<rparr>
         None None) = Readable [[0xEF, 0xBF, 0xBD, 0xEF, 0xBF, 0xBD]] Closed
   \<and> encode [0xE9] = [0xC3, 0xA9]
   \<and> stream (AIStream sse
         \<lparr>ok = True,
          body = Some (Readable [ascii ''data: a'' @ [0xA, 0xA] @ ascii ''data: b'' @ [0xA, 0xA]]
            Closed)\<rparr>
         (Some (\<lambda>d. if d = js ''a'' then Some [0xD83D] else Some [0xDE00])) None) =
       Readable [[0xEF, 0xBF, 0xBD], [0xEF, 0xBF, 0xBD]] Closed
   \<and> encode (concat [[0xD83D], [0xDE00]]) = [0xF0, 0x9F, 0x98, 0x80]
   \<and> stream (AIStream sse
         \<lparr>ok = True, body = Some (Readable [ascii ''data: hi'' @ [0xA, 0xA]] Closed)\<rparr> None
         (Some \<lparr>onStart = Some (\<lambda>u. Some (Error (js ''boom''))), onCompletion = None,
                onToken = None\<rparr>)) =
       Readable [] (Errored (Error (js ''boom'')))
   \<and> stream (AIStream (sse\<lparr>tokens_taken := 2, bytes_taken := 2\<rparr>)
         \<lparr>ok = True,
          body = Some (Readable
            [ascii ''data: a'' @ [0xA, 0xA] @ ascii ''data: b'' @ [0xA, 0xA] @
             ascii ''data: c'' @ [0xA, 0xA]]
            (Errored (Error (js ''net''))))\<rparr>
         None None) =
       Readable [ascii ''a'', ascii ''b''] (Errored (Error (js ''net'')))"
proof (intro conjI)
  show "map decode [ascii ''data: '' @ [0xC3], [0xA9, 0xA, 0xA]] =
      [js ''data: '' @ [0xFFFD], [0xFFFD, 0xA, 0xA]]"
    by (simp add: text_defs)
  show "decode (concat [ascii ''data: '' @ [0xC3], [0xA9, 0xA, 0xA]]) =
      js ''data: '' @ [0xE9, 0xA, 0xA]"
    by (simp add: text_defs)
  show "\<not> list_ex is_termination
      (stream_events sse [ascii ''data: '' @ [0xC3], [0xA9, 0xA, 0xA]])"
    by (simp add: stream_events_def text_defs sse_defs is_termination_def)
  show "tokens_of None (stream_events sse [ascii ''data: '' @ [0xC3], [0xA9, 0xA, 0xA]]) =
      [[0xE9]]"
    by (simp add: stream_events_def tokens_of_def text_defs sse_defs)
  show "map_option enqueued
      (framed (AIStream sse
        \<lparr>ok = True, body = Some (Readable [ascii ''data: '' @ [0xC3], [0xA9, 0xA, 0xA]] Closed)\<rparr>
        None None)) = Some [[0xFFFD, 0xFFFD]]"
    by (simp add: AIStream_def Let_def framer_defs text_defs sse_defs)
  show "stream (AIStream sse
        \<lparr>ok = True, body = Some (Readable [ascii ''data: '' @ [0xC3], [0xA9, 0xA, 0xA]] Closed)\<rparr>
        None None) = Readable [[0xEF, 0xBF, 0xBD, 0xEF, 0xBF, 0xBD]] Closed"
    by (simp add: AIStream_def Let_def framer_defs text_defs sse_defs lifecycle_defs)
  show "encode [0xE9] = [0xC3, 0xA9]"
    by (simp add: text_defs)
  show "stream (AIStream sse
        \<lparr>ok = True,
         body = Some (Readable [ascii ''data: a'' @ [0xA, 0xA] @ ascii ''data: b'' @ [0xA, 0xA]]
           Closed)\<rparr>
        (Some (\<lambda>d. if d = js ''a'' then Some [0xD83D] else Some [0xDE00])) None) =
      Readable [[0xEF, 0xBF, 0xBD], [0xEF, 0xBF, 0xBD]] Closed"
    by (simp add: AIStream_def Let_def framer_defs text_defs sse_defs lifecycle_defs)
  show "encode (concat [[0xD83D], [0xDE00]]) = [0xF0, 0x9F, 0x98, 0x80]"
    by (simp add: text_defs)
  show "stream (AIStream sse
        \<lparr>ok = True, body = Some (Readable [ascii ''data: hi'' @ [0xA, 0xA]] Closed)\<rparr> None
        (Some \<lparr>onStart = Some (\<lambda>u. Some (Error (js ''boom''))), onCompletion = None,
               onToken = None\<rparr>)) =
      Readable [] (Errored (Error (js ''boom'')))"
    by (simp add: AIStream_def Let_def framer_defs text_defs sse_defs lifecycle_defs)
  show "stream (AIStream (sse\<lparr>tokens_taken := 2, bytes_taken := 2\<rparr>)
        \<lparr>ok = True,
         body = Some (Readable
           [ascii ''data: a'' @ [0xA, 0xA] @ ascii ''data: b'' @ [0xA, 0xA] @
            ascii ''data: c'' @ [0xA, 0xA]]
           (Errored (Error (js ''net''))))\<rparr>
        None None) =
      Readable [ascii ''a'', ascii ''b''] (Errored (Error (js ''net'')))"
    by (simp add: AIStream_def Let_def framer_defs text_defs sse_defs lifecycle_defs)
qed

text \<open>
  C1, amended. Let the events be those the parser frames from the texts it is fed, one text
  per chunk, each chunk decoded on its own. Take a hook that returns the same result for
  the same data and does not throw, and a body that closes or stays open without an error.
  When none of the events is a termination event and no supplied callback fails, the tokens
  \<^verbatim>\<open>AIStream\<close> produces on an ok response are, in order, the non-empty results of the hook on
  the data of each event (the non-empty data itself without a hook); the returned stream
  carries one chunk per token, its UTF-8 encoding, and closes or stays open as the body
  does; and when every token is well-formed UTF-16, the bytes of the stream are the UTF-8
  encoding of the concatenation of the tokens.
\<close>

theorem AIStream_tokens_and_bytes:
  assumes "ending b = Closed \<or> ending b = Pending"
    and "\<not> list_ex is_termination
      (framed_events P (createParser P) (map decode (chunks b)))"
    and "callbacks_succeed callbacks
      (tokens_of customParser (framed_events P (createParser P) (map decode (chunks b))))"
  shows "map_option enqueued
        (framed (AIStream P \<lparr>ok = True, body = Some b\<rparr> customParser callbacks)) =
        Some (tokens_of customParser
          (framed_events P (createParser P) (map decode (chunks b))))
    \<and> stream (AIStream P \<lparr>ok = True, body = Some b\<rparr> customParser callbacks) =
        Readable
          (map encode (tokens_of customParser
            (framed_events P (createParser P) (map decode (chunks b)))))
          (ending b)
    \<and> (list_all well_formed
          (tokens_of customParser (framed_events P (createParser P) (map decode (chunks b))))
        \<longrightarrow> concat (chunks
            (stream (AIStream P \<lparr>ok = True, body = Some b\<rparr> customParser callbacks))) =
          encode (concat (tokens_of customParser
            (framed_events P (createParser P) (map decode (chunks b))))))"
proof -
  let ?evs = "framed_events P (createParser P) (map decode (chunks b))"
  let ?ts = "tokens_of customParser ?evs"
  let ?fr = "createEventStreamTransformer P customParser b"
  from assms(2) have tw: "takeWhile (\<lambda>e. \<not> is_termination e) ?evs = ?evs"
    by (auto simp: list_ex_iff)
  have e: "enqueued ?fr = ?ts" by (simp add: framer_tokens(1) tw)
  have t: "\<not> terminated ?fr" using assms(2) by (simp add: framer_tokens(2))
  have x: "thrown ?fr = None" using t by (rule framer_thrown)
  have r: "framer_readable P ?fr b = Readable ?ts (ending b)"
    using e t x assms(1) by (auto simp: framer_readable_def)
  have s: "stream (AIStream P \<lparr>ok = True, body = Some b\<rparr> customParser callbacks) =
      Readable (map encode ?ts) (ending b)"
    using lifecycle_bytes [OF assms(3) assms(1), of P] r by (simp add: AIStream_def Let_def)
  have f: "map_option enqueued
      (framed (AIStream P \<lparr>ok = True, body = Some b\<rparr> customParser callbacks)) = Some ?ts"
    using e by (simp add: AIStream_def Let_def)
  from f s show ?thesis by (simp add: encode_concat)
qed

theorem AIStream_tokens_and_bytes_witness:
  "map_option enqueued
      (framed (AIStream sse
        \<lparr>ok = True,
         body = Some (Readable
           [ascii ''data: He'',
            ascii ''l'' @ [0xA, 0xA] @ ascii ''data: skip'' @ [0xA, 0xA] @ ascii ''data:  lo'' @
              [0xA, 0xA]]
           Closed)\<rparr>
        (Some (\<lambda>d. if d = js ''skip'' then None else Some (trimStart d)))
        (Some \<lparr>onStart = Some (\<lambda>u. None), onCompletion = Some (\<lambda>s. None),
               onToken = Some (\<lambda>t. None)\<rparr>))) = Some [js ''Hel'', js ''lo'']
   \<and> stream (AIStream sse
        \<lparr>ok = True,
         body = Some (Readable
           [ascii ''data: He'',
            ascii ''l'' @ [0xA, 0xA] @ ascii ''data: skip'' @ [0xA, 0xA] @ ascii ''data:  lo'' @
              [0xA, 0xA]]
           Closed)\<rparr>
        (Some (\<lambda>d. if d = js ''skip'' then None else Some (trimStart d)))
        (Some \<lparr>onStart = Some (\<lambda>u. None), onCompletion = Some (\<lambda>s. None),
               onToken = Some (\<lambda>t. None)\<rparr>)) = Readable [ascii ''Hel'', ascii ''lo''] Closed
   \<and> concat (chunks (stream (AIStream sse
        \<lparr>ok = True,
         body = Some (Readable
           [ascii ''data: He'',
            ascii ''l'' @ [0xA, 0xA] @ ascii ''data: skip'' @ [0xA, 0xA] @ ascii ''data:  lo'' @
              [0xA, 0xA]]
           Closed)\<rparr>
        (Some (\<lambda>d. if d = js ''skip'' then None else Some (trimStart d)))
        (Some \<lparr>onStart = Some (\<lambda>u. None), onCompletion = Some (\<lambda>s. None),
               onToken = Some (\<lambda>t. None)\<rparr>)))) = encode (js ''Hello'')"
proof -
  let ?b = "Readable
    [ascii ''data: He'',
     ascii ''l'' @ [0xA, 0xA] @ ascii ''data: skip'' @ [0xA, 0xA] @ ascii ''data:  lo'' @
       [0xA, 0xA]]
    Closed"
  let ?h = "Some (\<lambda>d. if d = js ''skip'' then None else Some (trimStart d))"
  let ?cb = "Some \<lparr>onStart = Some (\<lambda>u. None), onCompletion = Some (\<lambda>s. None),
    onToken = Some (\<lambda>t. None)\<rparr>"
  have evs: "framed_events sse (createParser sse) (map decode (chunks ?b)) =
      [ParsedEvent None (js ''Hel''), ParsedEvent None (js ''skip''),
       ParsedEvent None (js '' lo'')]"
    by (simp add: text_defs sse_defs)
  have h0: "ending ?b = Closed \<or> ending ?b = Pending" by simp
  have h1: "\<not> list_ex is_termination
      (framed_events sse (createParser sse) (map decode (chunks ?b)))"
    unfolding evs by (simp add: is_termination_def js_def)
  have ts: "tokens_of ?h
      [ParsedEvent None (js ''Hel''), ParsedEvent None (js ''skip''),
       ParsedEvent None (js '' lo'')] = [js ''Hel'', js ''lo'']"
    by (simp add: tokens_of_def js_def trimStart_def is_whitespace_def)
  have h2: "callbacks_succeed ?cb
      (tokens_of ?h (framed_events sse (createParser sse) (map decode (chunks ?b))))"
    unfolding evs ts by (simp add: callbacks_succeed_def destructure_def)
  have wf: "list_all well_formed [js ''Hel'', js ''lo'']"
    by (simp add: text_defs)
  have enc: "map encode [js ''Hel'', js ''lo''] = [ascii ''Hel'', ascii ''lo'']"
    by (simp add: text_defs)
  have cat: "concat [js ''Hel'', js ''lo''] = js ''Hello''"
    by (simp add: js_def)
  show ?thesis
    using AIStream_tokens_and_bytes [OF h0 h1 h2] wf
    unfolding evs ts enc cat by (simp add: text_defs)
qed


text \<open>
  C2. When the tokens have all arrived and the input closes, and no supplied callback fails,
  the callbacks transformer does the following, in this order: it calls \<^verbatim>\<open>onStart\<close> once
  (if supplied), before anything is enqueued; for each token in arrival order it enqueues
  the encoded token and then calls \<^verbatim>\<open>onToken\<close> with it (if supplied); and after the last
  chunk is enqueued it calls \<^verbatim>\<open>onCompletion\<close> once (if supplied), with the concatenation of
  all tokens in arrival order.
\<close>

theorem createCallbacksTransformer_order:
  assumes "callbacks_succeed callbacks tokens"
  shows "trace (createCallbacksTransformer callbacks (Readable tokens Closed)) =
      (case onStart (destructure callbacks) of None \<Rightarrow> [] | Some f \<Rightarrow> [CallStart]) @
      concat (map (\<lambda>t. Enqueue (encode t) #
        (case onToken (destructure callbacks) of None \<Rightarrow> [] | Some f \<Rightarrow> [CallToken t]))
        tokens) @
      (case onCompletion (destructure callbacks) of
         None \<Rightarrow> []
       | Some f \<Rightarrow> [CallCompletion (concat tokens)])"
proof -
  have "token_effects (destructure callbacks) =
      (\<lambda>t. Enqueue (encode t) #
        (case onToken (destructure callbacks) of None \<Rightarrow> [] | Some f \<Rightarrow> [CallToken t]))"
    by (rule ext) (simp add: token_effects_def)
  with lifecycle_trace(1) [OF assms, of Closed] show ?thesis by simp
qed

theorem createCallbacksTransformer_order_witness:
  "trace (createCallbacksTransformer
      (Some \<lparr>onStart = Some (\<lambda>u. None), onCompletion = Some (\<lambda>s. None),
             onToken = Some (\<lambda>t. None)\<rparr>)
      (Readable [js ''Hel'', js ''lo''] Closed)) =
   [CallStart, Enqueue (ascii ''Hel''), CallToken (js ''Hel''), Enqueue (ascii ''lo''),
    CallToken (js ''lo''), CallCompletion (js ''Hello'')]"
proof -
  let ?cb = "Some \<lparr>onStart = Some (\<lambda>u. None), onCompletion = Some (\<lambda>s. None),
    onToken = Some (\<lambda>t. None)\<rparr>"
  have h: "callbacks_succeed ?cb [js ''Hel'', js ''lo'']"
    by (simp add: callbacks_succeed_def destructure_def)
  show ?thesis
    using createCallbacksTransformer_order [OF h]
    by (simp add: destructure_def js_def ascii_def encode_def utf8_bytes_def is_high_def
        is_low_def)
qed


text \<open>
  C3. The code at an input where it departs from the claim: one chunk with the events
  \<^verbatim>\<open>a\<close>, \<^verbatim>\<open>b\<close>, \<^verbatim>\<open>[DONE]\<close> and \<^verbatim>\<open>x\<close>. \<^verbatim>\<open>terminate\<close> followed by \<^verbatim>\<open>return\<close> leaves the
  callback but not the call of \<^verbatim>\<open>feed\<close>: the event \<^verbatim>\<open>x\<close> is still framed and passed to the
  callback (and to the hook, when there is one), and the attempt to enqueue it throws a
  \<^verbatim>\<open>TypeError\<close>. With a consumer that has taken one chunk by then, the stream \<^verbatim>\<open>AIStream\<close>
  returns carries \<^verbatim>\<open>a\<close> and is errored with the \<^verbatim>\<open>TypeError\<close>; \<^verbatim>\<open>b\<close> is lost and
  \<^verbatim>\<open>onCompletion\<close> is not called.
\<close>

theorem framing_continues_after_termination:
  "seen (createEventStreamTransformer sse None
      (Readable
        [ascii ''data: a'' @ [0xA, 0xA] @ ascii ''data: b'' @ [0xA, 0xA] @
         ascii ''data: [DONE]'' @ [0xA, 0xA] @ ascii ''data: x'' @ [0xA, 0xA]] Closed)) =
     [ParsedEvent None (js ''a''), ParsedEvent None (js ''b''),
      ParsedEvent None (js ''[DONE]''), ParsedEvent None (js ''x'')]
   \<and> enqueued (createEventStreamTransformer sse None
      (Readable
        [ascii ''data: a'' @ [0xA, 0xA] @ ascii ''data: b'' @ [0xA, 0xA] @
         ascii ''data: [DONE]'' @ [0xA, 0xA] @ ascii ''data: x'' @ [0xA, 0xA]] Closed)) =
     [js ''a'', js ''b'']
   \<and> thrown (createEventStreamTransformer sse None
      (Readable
        [ascii ''data: a'' @ [0xA, 0xA] @ ascii ''data: b'' @ [0xA, 0xA] @
         ascii ''data: [DONE]'' @ [0xA, 0xA] @ ascii ''data: x'' @ [0xA, 0xA]] Closed)) =
     Some TypeError
   \<and> hook_calls (createEventStreamTransformer sse (Some (\<lambda>d. Some d))
      (Readable
        [ascii ''data: a'' @ [0xA, 0xA] @ ascii ''data: b'' @ [0xA, 0xA] @
         ascii ''data: [DONE]'' @ [0xA, 0xA] @ ascii ''data: x'' @ [0xA, 0xA]] Closed)) =
     [js ''a'', js ''b'', js ''x'']
   \<and> stream (AIStream (sse\<lparr>tokens_taken := 1, bytes_taken := 1\<rparr>)
      \<lparr>ok = True,
       body = Some (Readable
        [ascii ''data: a'' @ [0xA, 0xA] @ ascii ''data: b'' @ [0xA, 0xA] @
         ascii ''data: [DONE]'' @ [0xA, 0xA] @ ascii ''data: x'' @ [0xA, 0xA]] Closed)\<rparr>
      None
      (Some \<lparr>onStart = None, onCompletion = Some (\<lambda>s. None), onToken = None\<rparr>)) =
     Readable [ascii ''a''] (Errored TypeError)
   \<and> map_option trace (lifecycled (AIStream (sse\<lparr>tokens_taken := 1, bytes_taken := 1\<rparr>)
      \<lparr>ok = True,
       body = Some (Readable
        [ascii ''data: a'' @ [0xA, 0xA] @ ascii ''data: b'' @ [0xA, 0xA] @
         ascii ''data: [DONE]'' @ [0xA, 0xA] @ ascii ''data: x'' @ [0xA, 0xA]] Closed)\<rparr>
      None
      (Some \<lparr>onStart = None, onCompletion = Some (\<lambda>s. None), onToken = None\<rparr>))) =
     Some [Enqueue (ascii ''a'')]"
  by (simp add: AIStream_def Let_def framer_defs text_defs sse_defs lifecycle_defs)


text \<open>
  C4. A failed response whose body closes without a chunk: the stream returned by
  \<^verbatim>\<open>AIStream\<close> is never errored and never closed, since the read reports \<^verbatim>\<open>done\<close> and
  nothing is signalled. A failed response whose body's first chunk has length zero is
  errored with the message \<^verbatim>\<open>"Response error: "\<close>. Neither stream has a chunk.
\<close>

theorem AIStream_error_body_without_content:
  "stream (AIStream P \<lparr>ok = False, body = Some (Readable [] Closed)\<rparr> customParser callbacks) =
     Readable [] Pending
   \<and> stream (AIStream P \<lparr>ok = False, body = Some (Readable ([] # rest) e)\<rparr>
       customParser callbacks) =
     Readable [] (Errored (Error (js ''Response error: '')))"
  by (simp add: AIStream_def decode_def)


text \<open>
  C5. For a response with \<^verbatim>\<open>ok = false\<close> and a body whose first chunk decodes to
  \<^verbatim>\<open>"rate limited"\<close>, the stream returned by \<^verbatim>\<open>AIStream\<close> has no chunk and is errored with
  an \<^verbatim>\<open>Error\<close> whose message is \<^verbatim>\<open>"Response error: rate limited"\<close>, so its first read rejects
  with that error; and \<^verbatim>\<open>AIStream\<close> reads the body once.
\<close>

theorem AIStream_response_error:
  assumes "decode val = js ''rate limited''"
  shows "stream (AIStream P \<lparr>ok = False, body = Some (Readable (val # rest) e)\<rparr>
        customParser callbacks) =
        Readable [] (Errored (Error (js ''Response error: rate limited'')))
    \<and> body_reads (AIStream P \<lparr>ok = False, body = Some (Readable (val # rest) e)\<rparr>
        customParser callbacks) = 1"
  using assms by (simp add: AIStream_def js_def)

theorem AIStream_response_error_witness:
  "stream (AIStream sse \<lparr>ok = False, body = Some (Readable [ascii ''rate limited''] Closed)\<rparr>
      None None) =
     Readable [] (Errored (Error (js ''Response error: rate limited'')))
   \<and> body_reads (AIStream sse
       \<lparr>ok = False, body = Some (Readable [ascii ''rate limited''] Closed)\<rparr> None None) = 1"
proof -
  have h: "decode (ascii ''rate limited'') = js ''rate limited''"
    by (simp add: decode_def ascii_def js_def utf16_units_def)
  show ?thesis
    using AIStream_response_error [OF h, of sse "[]" Closed None None] by simp
qed


text \<open>
  C6. Successive calls of the function returned by \<^verbatim>\<open>trimStartOfStreamHelper()\<close>: the
  texts up to the first one with a non-empty residue are trimmed (each of the earlier ones
  to the empty string), that one is trimmed too, and every later text is returned as it is.
  On \<^verbatim>\<open>["   a", "   b"]\<close> the calls return \<^verbatim>\<open>["a", "   b"]\<close>, and on
  \<^verbatim>\<open>["   ", "  c"]\<close> they return \<^verbatim>\<open>["", "c"]\<close>.
\<close>

theorem trimStartOfStreamHelper_first_residue:
  "trim_calls trimStartOfStreamHelper texts =
     map trimStart (takeWhile (\<lambda>t. trimStart t = []) texts) @
     (case dropWhile (\<lambda>t. trimStart t = []) texts of
        [] \<Rightarrow> []
      | t # rest \<Rightarrow> trimStart t # rest)
   \<and> trim_calls trimStartOfStreamHelper [js ''   a'', js ''   b''] = [js ''a'', js ''   b'']
   \<and> trim_calls trimStartOfStreamHelper [js ''   '', js ''  c''] = [[], js ''c'']"
proof (intro conjI)
  show "trim_calls trimStartOfStreamHelper texts =
     map trimStart (takeWhile (\<lambda>t. trimStart t = []) texts) @
     (case dropWhile (\<lambda>t. trimStart t = []) texts of
        [] \<Rightarrow> []
      | t # rest \<Rightarrow> trimStart t # rest)"
    unfolding trimStartOfStreamHelper_def by (rule trim_calls_start)
  show "trim_calls trimStartOfStreamHelper [js ''   a'', js ''   b''] = [js ''a'', js ''   b'']"
    by (simp add: trimStartOfStreamHelper_def trim_call_def trimStart_def is_whitespace_def
        js_def)
  show "trim_calls trimStartOfStreamHelper [js ''   '', js ''  c''] = [[], js ''c'']"
    by (simp add: trimStartOfStreamHelper_def trim_call_def trimStart_def is_whitespace_def
        js_def)
qed

text \<open>
  C7. For a response with \<^verbatim>\<open>ok = true\<close> and \<^verbatim>\<open>body = null\<close>, when no supplied callback
  fails, the stream returned by \<^verbatim>\<open>AIStream\<close> closes with no chunk, and what the callbacks
  transformer does is one call of \<^verbatim>\<open>onStart\<close> (if supplied) and one call of \<^verbatim>\<open>onCompletion\<close>
  with the empty string (if supplied).
\<close>

theorem AIStream_null_body:
  assumes "callbacks_succeed callbacks []"
  shows "stream (AIStream P \<lparr>ok = True, body = None\<rparr> customParser callbacks) =
        Readable [] Closed
    \<and> map_option trace
        (lifecycled (AIStream P \<lparr>ok = True, body = None\<rparr> customParser callbacks)) =
        Some ((case onStart (destructure callbacks) of None \<Rightarrow> [] | Some f \<Rightarrow> [CallStart]) @
          (case onCompletion (destructure callbacks) of
             None \<Rightarrow> []
           | Some f \<Rightarrow> [CallCompletion []]))"
proof -
  have fr: "framer_readable P
      (createEventStreamTransformer P customParser createEmptyReadableStream)
      createEmptyReadableStream = Readable [] Closed"
    by (simp add: framer_readable_def createEventStreamTransformer_def
        createEmptyReadableStream_def)
  from lifecycle_trace [OF assms, of Closed] lifecycle_bytes [OF assms, of Closed P] fr
  show ?thesis by (simp add: AIStream_def Let_def split: option.split)
qed

theorem AIStream_null_body_witness:
  "stream (AIStream sse \<lparr>ok = True, body = None\<rparr> None
      (Some \<lparr>onStart = None, onCompletion = Some (\<lambda>s. None), onToken = None\<rparr>)) =
     Readable [] Closed
   \<and> map_option trace
       (lifecycled (AIStream sse \<lparr>ok = True, body = None\<rparr> None
         (Some \<lparr>onStart = None, onCompletion = Some (\<lambda>s. None), onToken = None\<rparr>))) =
       Some [CallCompletion []]"
proof -
  let ?cb = "Some \<lparr>onStart = None, onCompletion = Some (\<lambda>s. None), onToken = None\<rparr>"
  have h: "callbacks_succeed ?cb []"
    by (simp add: callbacks_succeed_def destructure_def)
  show ?thesis
    using AIStream_null_body [OF h, of sse None] by (simp add: destructure_def)
qed


text \<open>
  C8. When a stream made by \<^verbatim>\<open>readableFromAsyncIterable\<close> is cancelled with a reason while
  it is in flight (neither closed nor errored, after any requests made before), the
  iterator's \<^verbatim>\<open>return\<close> method, when there is one, is called with that reason, and that is
  the only call of \<^verbatim>\<open>return\<close> ever made, whatever requests follow. When there is no
  \<^verbatim>\<open>return\<close> method, none is called.
\<close>

theorem cancel_calls_return_once:
  assumes "state (requests I before (readableFromAsyncIterable s)) = IsReadable"
  shows "return_calls
      (requests I (before @ Cancel reason # after) (readableFromAsyncIterable s)) =
      (case it_return I of None \<Rightarrow> [] | Some f \<Rightarrow> [reason])"
proof -
  let ?st = "requests I before (readableFromAsyncIterable s)"
  from requests_readable [OF assms] have r: "return_calls ?st = []"
    by (simp add: readableFromAsyncIterable_def)
  have c: "state (cancel I reason ?st) \<noteq> IsReadable"
    using assms by (simp add: cancel_def split: option.split)
  have "requests I (before @ Cancel reason # after) (readableFromAsyncIterable s) =
      requests I after (cancel I reason ?st)"
    by (simp add: requests_append)
  also have "\<dots> = cancel I reason ?st" using c by (rule requests_not_readable)
  finally show ?thesis using assms r by (simp add: cancel_def split: option.split)
qed

theorem cancel_calls_return_once_witness:
  "return_calls
     (requests \<lparr>it_next = (\<lambda>n::nat. (Yield n, Suc n)), it_return = Some (\<lambda>(r::nat) n. n)\<rparr>
       ([Pull, Pull] @ Cancel 7 # [Pull, Cancel 8])
       (readableFromAsyncIterable 0)) = [7]"
proof -
  let ?I = "\<lparr>it_next = (\<lambda>n::nat. (Yield n, Suc n)), it_return = Some (\<lambda>(r::nat) n. n)\<rparr>"
  have h: "state (requests ?I [Pull, Pull] (readableFromAsyncIterable 0)) = IsReadable"
    by (simp add: readableFromAsyncIterable_def pull_def)
  show ?thesis
    using cancel_calls_return_once [OF h, of 7 "[Pull, Cancel 8]"] by simp
qed


text \<open>
  C9. The parser callback never passes a termination event to the custom parser: on such an
  event the calls of the hook stay as they were and the stream is terminated, whatever the
  hook is. Over a whole run, the hook is called with the data of exactly those parsed events
  the callback saw that are not termination events, so it is never called with
  \<^verbatim>\<open>"[DONE]"\<close>.
\<close>

theorem hook_not_called_on_termination:
  "(is_termination ev \<longrightarrow>
      hook_calls (onParse customParser ev st) = hook_calls st \<and>
      terminated (onParse customParser ev st))
   \<and> hook_calls (createEventStreamTransformer P (Some f) input) =
       concat (map hook_arg (seen (createEventStreamTransformer P (Some f) input)))
   \<and> js ''[DONE]'' \<notin> set (hook_calls (createEventStreamTransformer P customParser input))"
proof (intro conjI impI)
  assume "is_termination ev"
  then show "hook_calls (onParse customParser ev st) = hook_calls st"
    and "terminated (onParse customParser ev st)"
    by (simp_all add: onParse_termination)
next
  show "hook_calls (createEventStreamTransformer P (Some f) input) =
      concat (map hook_arg (seen (createEventStreamTransformer P (Some f) input)))"
    by (rule framer_hook)
next
  show "js ''[DONE]'' \<notin> set (hook_calls (createEventStreamTransformer P customParser input))"
  proof (cases customParser)
    case None
    then show ?thesis by (simp add: createEventStreamTransformer_def writes_no_hook)
  next
    case (Some g)
    with framer_hook [of P g input] hook_arg_not_done show ?thesis by auto
  qed
qed

theorem hook_not_called_on_termination_witness:
  "is_termination (ParsedEvent (Some (js ''done'')) (js ''bye''))
   \<and> hook_calls (onParse (Some (\<lambda>d. Some d)) (ParsedEvent (Some (js ''done'')) (js ''bye''))
       \<lparr>eventSourceParser = createParser sse, enqueued = [], terminated = False,
        thrown = None, seen = [], hook_calls = []\<rparr>) = []
   \<and> terminated (onParse (Some (\<lambda>d. Some d)) (ParsedEvent (Some (js ''done'')) (js ''bye''))
       \<lparr>eventSourceParser = createParser sse, enqueued = [], terminated = False,
        thrown = None, seen = [], hook_calls = []\<rparr>)"
proof -
  have h: "is_termination (ParsedEvent (Some (js ''done'')) (js ''bye''))"
    by (simp add: is_termination_def)
  show ?thesis
    using h hook_not_called_on_termination
      [of "ParsedEvent (Some (js ''done'')) (js ''bye'')" "Some (\<lambda>d. Some d)"
        "\<lparr>eventSourceParser = createParser sse, enqueued = [], terminated = False,
          thrown = None, seen = [], hook_calls = []\<rparr>" sse "\<lambda>d. Some d"
        "Readable [] Closed"]
    by simp
qed


text \<open>
  C10. A supplied \<^verbatim>\<open>onStart\<close> is called exactly once, as the first thing the callbacks
  transformer does, whatever tokens arrive and however the input ends, in particular
  when no token arrives at all; and \<^verbatim>\<open>AIStream\<close> on a successful response calls it exactly
  once whatever the body is, a missing body and an empty one included.
\<close>

theorem onStart_once:
  assumes "onStart (destructure callbacks) = Some f"
  shows "filter (\<lambda>e. e = CallStart) (trace (createCallbacksTransformer callbacks input)) =
        [CallStart]
    \<and> take 1 (trace (createCallbacksTransformer callbacks input)) = [CallStart]
    \<and> map_option (\<lambda>l. filter (\<lambda>e. e = CallStart) (trace l))
        (lifecycled (AIStream P \<lparr>ok = True, body = b\<rparr> customParser callbacks)) =
        Some [CallStart]"
  using lifecycle_starts [OF assms] by (simp add: AIStream_def Let_def)

theorem onStart_once_witness:
  "filter (\<lambda>e. e = CallStart)
     (trace (createCallbacksTransformer
       (Some \<lparr>onStart = Some (\<lambda>u. None), onCompletion = None, onToken = None\<rparr>)
       (Readable [] Closed))) = [CallStart]
   \<and> map_option (\<lambda>l. filter (\<lambda>e. e = CallStart) (trace l))
       (lifecycled (AIStream sse \<lparr>ok = True, body = None\<rparr> None
         (Some \<lparr>onStart = Some (\<lambda>u. None), onCompletion = None, onToken = None\<rparr>))) =
       Some [CallStart]
   \<and> map_option (\<lambda>l. filter (\<lambda>e. e = CallStart) (trace l))
       (lifecycled (AIStream sse \<lparr>ok = True, body = Some (Readable [] Closed)\<rparr> None
         (Some \<lparr>onStart = Some (\<lambda>u. None), onCompletion = None, onToken = None\<rparr>))) =
       Some [CallStart]"
proof -
  let ?cb = "Some \<lparr>onStart = Some (\<lambda>u. None), onCompletion = None, onToken = None\<rparr>"
  have h: "onStart (destructure ?cb) = Some (\<lambda>u. None)"
    by (simp add: destructure_def)
  show ?thesis
    using onStart_once [OF h, of "Readable [] Closed" sse None None]
      onStart_once [OF h, of "Readable [] Closed" sse "Some (Readable [] Closed)" None]
    by simp
qed


end
